theory Spec2Isabelle
  imports Main
begin

section \<open>The Cisco ASA session overlay (netdev/cisco/cisco\_asa.py)\<close>

text \<open>
  The class \<open>CiscoAsa\<close> extends a generic session base. The methods of the base class
  (\<open>_establish_connection\<close>, \<open>_find_prompt\<close>, \<open>_enable\<close>, \<open>_disable_paging\<close> and the
  generic \<open>send_command\<close>) are not part of the file; they are parameters of the model.
  Every \<open>await\<close> of the source is a step of an exception-and-state computation: a step
  returns either the raised error or its value, together with the session after it.
  There is no \<open>try\<close> in the file, so an error ends the method that meets it. The calls
  to the logger change nothing and are left out.
\<close>

subsection \<open>Strings as Python handles them\<close>

text \<open>Python's \<open>sub in s\<close> on strings: \<open>sub\<close> occurs in \<open>s\<close> as a contiguous piece.\<close>

fun starts_with :: "string \<Rightarrow> string \<Rightarrow> bool" where
  "starts_with [] s = True"
| "starts_with (a # as) [] = False"
| "starts_with (a # as) (c # cs) = (a = c \<and> starts_with as cs)"

fun str_in :: "string \<Rightarrow> string \<Rightarrow> bool" where
  "str_in sub [] = (sub = [])"
| "str_in sub (c # cs) = (starts_with sub (c # cs) \<or> str_in sub cs)"

text \<open>
  Python's \<open>s.split(sep)\<close> for a one-character separator: the pieces between the
  occurrences of \<open>sep\<close>, one more piece than there are separators, empty pieces kept.
\<close>

fun split :: "char \<Rightarrow> string \<Rightarrow> string list" where
  "split sep [] = [[]]"
| "split sep (c # cs) =
     (if c = sep then [] # split sep cs
      else (case split sep cs of [] \<Rightarrow> [[c]] | p # ps \<Rightarrow> (c # p) # ps))"

definition backslash :: char where
  "backslash = CHR 0x5C"

text \<open>
  \<open>re.escape\<close> of the standard library (CPython 3.7 and later): a backslash is put in
  front of each of the characters \<open>()[]{}?*+-|^$\.&~#\<close>, of the space and of the
  control characters tab, newline, carriage return, vertical tab and form feed; every
  other character is left as it is.
\<close>

definition special_chars :: "char list" where
  "special_chars =
     ''()[]{}?*+-|^$.&~# '' @ [backslash, CHR 0x09, CHR 0x0A, CHR 0x0D, CHR 0x0B, CHR 0x0C]"

fun re_escape :: "string \<Rightarrow> string" where
  "re_escape [] = []"
| "re_escape (c # cs) =
     (if c \<in> set special_chars then backslash # c # re_escape cs else c # re_escape cs)"

subsection \<open>Errors, collaborator calls and the session\<close>

text \<open>
  \<open>KeyError\<close> is raised by the dictionary lookup of \<open>_get_default_command\<close>,
  \<open>ValueError\<close> by the two-target unpacking in \<open>_set_base_prompt\<close>; \<open>CollaboratorError\<close>
  stands for whatever a method of the base class raises.
\<close>

datatype error = KeyError string | ValueError | CollaboratorError string

datatype call =
    EstablishConnection
  | FindPrompt
  | Enable
  | DisablePaging
  | SendCommandBase string bool bool

text \<open>How a call to the base class ended: it raised, it returned \<open>None\<close>, or it returned text.\<close>

datatype outcome = Raised error | Finished | Returned string

text \<open>
  The fields of the object. \<open>calls\<close> records every call made to the base class, in
  order, each with the way it ended; \<open>world\<close> is everything the base class owns (the
  transport, the device behind it).
\<close>

record 'w session =
  base_prompt :: string
  base_pattern :: string
  current_context :: string
  multiple_mode :: bool
  calls :: "(call \<times> outcome) list"
  world :: 'w

text \<open>
  The methods of the base class. Each may read the whole session, returns its value or
  the error it raises, and leaves a new world; the prompt, the pattern, the context and
  the mode flag are assigned by the methods of \<open>CiscoAsa\<close> only.
\<close>

record 'w collaborator =
  establish_connection :: "'w session \<Rightarrow> (error + unit) \<times> 'w"
  find_prompt :: "'w session \<Rightarrow> (error + string) \<times> 'w"
  enable :: "'w session \<Rightarrow> (error + unit) \<times> 'w"
  disable_paging :: "'w session \<Rightarrow> (error + unit) \<times> 'w"
  send_command_base :: "string \<Rightarrow> bool \<Rightarrow> bool \<Rightarrow> 'w session \<Rightarrow> (error + string) \<times> 'w"

definition outcome_of :: "('a \<Rightarrow> outcome) \<Rightarrow> error + 'a \<Rightarrow> outcome" where
  "outcome_of shown r = (case r of Inl e \<Rightarrow> Raised e | Inr v \<Rightarrow> shown v)"

text \<open>One call to the base class: run it, keep its new world, record it.\<close>

definition invoke ::
  "call \<Rightarrow> ('a \<Rightarrow> outcome) \<Rightarrow> ('w session \<Rightarrow> (error + 'a) \<times> 'w) \<Rightarrow> 'w session
     \<Rightarrow> (error + 'a) \<times> 'w session" where
  "invoke c shown run s =
     (case run s of
        (r, w) \<Rightarrow> (r, s\<lparr>calls := calls s @ [(c, outcome_of shown r)], world := w\<rparr>))"

text \<open>
  \<open>__init__\<close>: the two fields of this class are set to \<open>'system'\<close> and \<open>False\<close>; the
  prompt and the pattern belong to the base class and start empty.
\<close>

definition init :: "'w \<Rightarrow> 'w session" where
  "init w = \<lparr>base_prompt = [], base_pattern = [], current_context = ''system'',
             multiple_mode = False, calls = [], world = w\<rparr>"

subsection \<open>The command catalog\<close>

definition command_mapper :: "(string \<times> string) list" where
  "command_mapper =
     [(''delimeter1'', ''>''),
      (''delimeter2'', ''#''),
      (''pattern'', ''{}.*?('' @ [backslash] @ ''(.*?'' @ [backslash] @ ''))?[{}|{}]''),
      (''disable_paging'', ''terminal pager 0''),
      (''priv_enter'', ''enable''),
      (''priv_exit'', ''disable''),
      (''config_enter'', ''conf t''),
      (''config_exit'', ''end''),
      (''config_check'', '')#''),
      (''check_config_mode'', '')#'')]"

definition get_default_command :: "string \<Rightarrow> error + string" where
  "get_default_command command =
     (case map_of command_mapper command of
        None \<Rightarrow> Inl (KeyError command)
      | Some v \<Rightarrow> Inr v)"

subsection \<open>The prompt parser\<close>

text \<open>
  Lines 70 to 75: the context is \<open>'system'\<close> unless the prompt holds a \<open>/\<close>; then the
  prompt without its last character is split at every \<open>/\<close> and unpacked into exactly
  two names, which raises \<open>ValueError\<close> for any other number of pieces.
\<close>

definition cut_prompt :: "string \<Rightarrow> error + string \<times> string" where
  "cut_prompt prompt =
     (if CHR ''/'' \<in> set prompt then
        (case split (CHR ''/'') (butlast prompt) of
           [p, c] \<Rightarrow> Inr (p, c)
         | _ \<Rightarrow> Inl ValueError)
      else Inr (butlast prompt, ''system''))"

text \<open>The format string of line 80, with its three arguments.\<close>

definition pattern_format :: "string \<Rightarrow> string \<Rightarrow> string \<Rightarrow> string" where
  "pattern_format a b c =
     a @ ''.*('' @ [backslash] @ ''/'' @ [backslash] @ ''w+)?(''
       @ [backslash] @ ''(.*?'' @ [backslash] @ ''))?['' @ b @ ''|'' @ c @ '']''"

definition set_base_prompt :: "'w collaborator \<Rightarrow> 'w session \<Rightarrow> (error + string) \<times> 'w session" where
  "set_base_prompt env s =
     (case invoke FindPrompt Returned (find_prompt env) s of
        (Inl e, s1) \<Rightarrow> (Inl e, s1)
      | (Inr prompt, s1) \<Rightarrow>
          (case cut_prompt prompt of
             Inl e \<Rightarrow> (Inl e, s1)
           | Inr (p, context) \<Rightarrow>
               (let s2 = s1\<lparr>base_prompt := p, current_context := context\<rparr> in
                case get_default_command ''delimeter1'' of
                  Inl e \<Rightarrow> (Inl e, s2)
                | Inr delimeter1 \<Rightarrow>
                    (case get_default_command ''delimeter2'' of
                       Inl e \<Rightarrow> (Inl e, s2)
                     | Inr delimeter2 \<Rightarrow>
                         (let s3 = s2\<lparr>base_pattern :=
                                    pattern_format (re_escape (take 12 (base_prompt s2)))
                                      (re_escape delimeter1) (re_escape delimeter2)\<rparr>
                          in (Inr (base_prompt s3), s3))))))"

subsection \<open>Command dispatch, mode detection and the connect sequence\<close>

definition send_command ::
  "'w collaborator \<Rightarrow> string \<Rightarrow> bool \<Rightarrow> bool \<Rightarrow> 'w session \<Rightarrow> (error + string) \<times> 'w session" where
  "send_command env command_string strip_prompt strip_command s =
     (case invoke (SendCommandBase command_string strip_prompt strip_command) Returned
             (send_command_base env command_string strip_prompt strip_command) s of
        (Inl e, s1) \<Rightarrow> (Inl e, s1)
      | (Inr output, s1) \<Rightarrow>
          (if str_in ''changet'' command_string then
             (case set_base_prompt env s1 of
                (Inl e, s2) \<Rightarrow> (Inl e, s2)
              | (Inr p, s2) \<Rightarrow> (Inr output, s2))
           else (Inr output, s1)))"

definition check_multiple_mode :: "'w collaborator \<Rightarrow> 'w session \<Rightarrow> (error + unit) \<times> 'w session" where
  "check_multiple_mode env s =
     (case send_command env ''show mode'' True True s of
        (Inl e, s1) \<Rightarrow> (Inl e, s1)
      | (Inr out, s1) \<Rightarrow>
          (Inr (), if str_in ''multiple'' out then s1\<lparr>multiple_mode := True\<rparr> else s1))"

definition connect :: "'w collaborator \<Rightarrow> 'w session \<Rightarrow> (error + unit) \<times> 'w session" where
  "connect env s =
     (case invoke EstablishConnection (\<lambda>u. Finished) (establish_connection env) s of
        (Inl e, s1) \<Rightarrow> (Inl e, s1)
      | (Inr u1, s1) \<Rightarrow>
     (case set_base_prompt env s1 of
        (Inl e, s2) \<Rightarrow> (Inl e, s2)
      | (Inr p, s2) \<Rightarrow>
     (case invoke Enable (\<lambda>u. Finished) (enable env) s2 of
        (Inl e, s3) \<Rightarrow> (Inl e, s3)
      | (Inr u3, s3) \<Rightarrow>
     (case invoke DisablePaging (\<lambda>u. Finished) (disable_paging env) s3 of
        (Inl e, s4) \<Rightarrow> (Inl e, s4)
      | (Inr u4, s4) \<Rightarrow> check_multiple_mode env s4))))"

subsection \<open>Reading a pattern\<close>

text \<open>
  The two optional groups of the pattern: \<open>(\/\w+)?\<close>, a slash and a context name, and
  \<open>(\(.*?\))?\<close>, a parenthesised sub-mode.
\<close>

definition context_group :: string where
  "context_group = ''('' @ [backslash] @ ''/'' @ [backslash] @ ''w+)?''"

definition submode_group :: string where
  "submode_group = ''('' @ [backslash] @ ''(.*?'' @ [backslash] @ ''))?''"

text \<open>
  The bracket expression a pattern ends with: the text between the last \<open>[\<close> and the
  closing \<open>]\<close> that is the pattern's last character.
\<close>

definition trailing_class :: "string \<Rightarrow> string option" where
  "trailing_class p =
     (if p \<noteq> [] \<and> last p = CHR '']'' \<and> CHR ''['' \<in> set (butlast p)
      then Some (rev (takeWhile (\<lambda>c. c \<noteq> CHR ''['') (rev (butlast p))))
      else None)"

text \<open>
  The characters a bracket expression without ranges stands for: a backslash makes the
  character after it stand for itself, every other character stands for itself.
\<close>

fun class_chars :: "string \<Rightarrow> char list" where
  "class_chars [] = []"
| "class_chars [c] = [c]"
| "class_chars (c # d # cs) =
     (if c = backslash then d # class_chars cs else c # class_chars (d # cs))"

subsection \<open>The connect sequence as a list, and a collaborator with fixed answers\<close>

definition connect_steps :: "call list" where
  "connect_steps =
     [EstablishConnection, FindPrompt, Enable, DisablePaging,
      SendCommandBase ''show mode'' True True]"

text \<open>
  A base class whose five methods end the same way at every call and leave the world
  as it is; used to run the definitions on concrete sessions.
\<close>

definition fixed_collaborator ::
  "error + unit \<Rightarrow> error + string \<Rightarrow> error + unit \<Rightarrow> error + unit \<Rightarrow> error + string
     \<Rightarrow> 'w collaborator" where
  "fixed_collaborator connected prompt enabled paged out =
     \<lparr>establish_connection = (\<lambda>s. (connected, world s)),
      find_prompt = (\<lambda>s. (prompt, world s)),
      enable = (\<lambda>s. (enabled, world s)),
      disable_paging = (\<lambda>s. (paged, world s)),
      send_command_base = (\<lambda>command_string strip_prompt strip_command s. (out, world s))\<rparr>"

text \<open>A device that answers every call without error.\<close>

definition device :: "string \<Rightarrow> string \<Rightarrow> unit collaborator" where
  "device prompt out = fixed_collaborator (Inr ()) (Inr prompt) (Inr ()) (Inr ()) (Inr out)"

subsection \<open>The sessions the connect sequence passes through\<close>

text \<open>
  The session reached from \<open>s\<close> once the calls \<open>new\<close> have been made and the last of them
  has left the world \<open>w\<close>; and a session whose identity has been parsed: base prompt \<open>p\<close>,
  context \<open>c\<close> and the pattern derived from \<open>p\<close> and the two delimiters.
\<close>

definition reached :: "'w session \<Rightarrow> (call \<times> outcome) list \<Rightarrow> 'w \<Rightarrow> 'w session" where
  "reached s new w = s\<lparr>calls := calls s @ new, world := w\<rparr>"

definition identified :: "string \<Rightarrow> string \<Rightarrow> 'w session \<Rightarrow> 'w session" where
  "identified p c st =
     st\<lparr>base_prompt := p, current_context := c,
        base_pattern := pattern_format (re_escape (take 12 p)) (re_escape ''>'') (re_escape ''#'')\<rparr>"

section \<open>Properties\<close>

subsection \<open>Strings\<close>

lemma starts_with_iff: "starts_with sub s \<longleftrightarrow> (\<exists>b. s = sub @ b)"
  by (induction sub s rule: starts_with.induct) auto

lemma str_in_iff: "str_in sub s \<longleftrightarrow> (\<exists>a b. s = a @ sub @ b)"
proof (induction s)
  case Nil
  show ?case by auto
next
  case (Cons c cs)
  show ?case
  proof
    assume "str_in sub (c # cs)"
    then consider "starts_with sub (c # cs)" | "str_in sub cs" by auto
    then show "\<exists>a b. c # cs = a @ sub @ b"
    proof cases
      case 1
      then obtain b where "c # cs = sub @ b" by (auto simp: starts_with_iff)
      then have "c # cs = [] @ sub @ b" by simp
      then show ?thesis by blast
    next
      case 2
      then obtain a b where "cs = a @ sub @ b" using Cons.IH by blast
      then have "c # cs = (c # a) @ sub @ b" by simp
      then show ?thesis by blast
    qed
  next
    assume "\<exists>a b. c # cs = a @ sub @ b"
    then obtain a b where ab: "c # cs = a @ sub @ b" by blast
    show "str_in sub (c # cs)"
    proof (cases a)
      case Nil
      with ab have "starts_with sub (c # cs)" by (auto simp: starts_with_iff)
      then show ?thesis by simp
    next
      case (Cons x a')
      with ab have "cs = a' @ sub @ b" by simp
      then have "str_in sub cs" using Cons.IH by blast
      then show ?thesis by simp
    qed
  qed
qed

lemma split_not_Nil: "split sep s \<noteq> []"
  by (induction s) (auto split: list.splits)

lemma length_split: "length (split sep s) = Suc (count_list s sep)"
  by (induction s) (auto split: list.splits simp: split_not_Nil)

lemma split_no_sep: "sep \<notin> set a \<Longrightarrow> split sep a = [a]"
  by (induction a) auto

lemma split_append_sep: "sep \<notin> set a \<Longrightarrow> split sep (a @ sep # b) = a # split sep b"
  by (induction a) auto

lemma split_single: "split sep s = [c] \<Longrightarrow> s = c \<and> sep \<notin> set c"
proof -
  assume h: "split sep s = [c]"
  have "length (split sep s) = Suc (count_list s sep)" by (rule length_split)
  with h have "count_list s sep = 0" by simp
  then have n: "sep \<notin> set s" by (simp add: count_list_0_iff)
  then have "split sep s = [s]" by (rule split_no_sep)
  with h n show ?thesis by simp
qed

lemma split_two_dest:
  "split sep s = [p, c] \<Longrightarrow> s = p @ sep # c \<and> sep \<notin> set p \<and> sep \<notin> set c"
proof (induction s arbitrary: p)
  case Nil
  then show ?case by simp
next
  case (Cons x xs)
  show ?case
  proof (cases "x = sep")
    case True
    with Cons.prems have "p = []" and "split sep xs = [c]" by simp_all
    with True split_single [of sep xs c] show ?thesis by simp
  next
    case False
    obtain q qs where q: "split sep xs = q # qs"
      using split_not_Nil [of sep xs] by (cases "split sep xs") simp_all
    with False Cons.prems have pq: "p = x # q" and "qs = [c]" by simp_all
    with q have "split sep xs = [q, c]" by simp
    then have "xs = q @ sep # c \<and> sep \<notin> set q \<and> sep \<notin> set c" by (rule Cons.IH)
    with pq False show ?thesis by simp
  qed
qed

lemma split_two_intro:
  "sep \<notin> set p \<Longrightarrow> sep \<notin> set c \<Longrightarrow> split sep (p @ sep # c) = [p, c]"
  by (simp add: split_append_sep split_no_sep)

lemma re_escape_gt: "re_escape ''>'' = ''>''"
  by (simp add: special_chars_def backslash_def)

lemma re_escape_hash: "re_escape ''#'' = [backslash, CHR ''#'']"
  by (simp add: special_chars_def backslash_def)

subsection \<open>The catalog\<close>

lemma command_mapper_keys:
  "map fst command_mapper =
     [''delimeter1'', ''delimeter2'', ''pattern'', ''disable_paging'', ''priv_enter'',
      ''priv_exit'', ''config_enter'', ''config_exit'', ''config_check'', ''check_config_mode'']"
  by (simp add: command_mapper_def)

lemma get_default_command_delimeter1: "get_default_command ''delimeter1'' = Inr ''>''"
  by (simp add: get_default_command_def command_mapper_def)

lemma get_default_command_delimeter2: "get_default_command ''delimeter2'' = Inr ''#''"
  by (simp add: get_default_command_def command_mapper_def)

subsection \<open>Cutting the prompt\<close>

lemma not_marker_show_mode: "\<not> str_in ''changet'' ''show mode''"
  by simp

lemma cut_prompt_no_slash:
  "CHR ''/'' \<notin> set prompt \<Longrightarrow> cut_prompt prompt = Inr (butlast prompt, ''system'')"
  by (simp add: cut_prompt_def)

lemma cut_prompt_Inr_slash:
  assumes "CHR ''/'' \<in> set prompt" and "cut_prompt prompt = Inr (p, c)"
  shows "butlast prompt = p @ ''/'' @ c \<and> CHR ''/'' \<notin> set p \<and> CHR ''/'' \<notin> set c"
proof -
  from assms have "split (CHR ''/'') (butlast prompt) = [p, c]"
    by (auto simp: cut_prompt_def split: list.splits)
  then show ?thesis using split_two_dest [of "CHR ''/''" "butlast prompt" p c] by simp
qed

lemma cut_prompt_one_slash:
  assumes "count_list (butlast prompt) (CHR ''/'') = 1"
  shows "\<exists>p c. cut_prompt prompt = Inr (p, c) \<and> butlast prompt = p @ ''/'' @ c
           \<and> CHR ''/'' \<notin> set p \<and> CHR ''/'' \<notin> set c"
proof -
  from assms have "CHR ''/'' \<in> set (butlast prompt)"
    using count_list_0_iff [of "butlast prompt" "CHR ''/''"] by auto
  then have mem: "CHR ''/'' \<in> set prompt" by (rule in_set_butlastD)
  have "length (split (CHR ''/'') (butlast prompt)) = 2"
    using assms by (simp add: length_split)
  then obtain p c where pc: "split (CHR ''/'') (butlast prompt) = [p, c]"
    by (auto simp: length_Suc_conv numeral_2_eq_2)
  with mem have "cut_prompt prompt = Inr (p, c)" by (simp add: cut_prompt_def)
  with mem show ?thesis using cut_prompt_Inr_slash by blast
qed

lemma cut_prompt_error:
  "cut_prompt prompt = Inl e \<Longrightarrow>
     e = ValueError \<and> CHR ''/'' \<in> set prompt \<and> count_list (butlast prompt) (CHR ''/'') \<noteq> 1"
proof -
  assume h: "cut_prompt prompt = Inl e"
  then have mem: "CHR ''/'' \<in> set prompt" by (auto simp: cut_prompt_def split: if_splits)
  from h have e: "e = ValueError" by (auto simp: cut_prompt_def split: if_splits list.splits)
  have "count_list (butlast prompt) (CHR ''/'') \<noteq> 1"
  proof
    assume "count_list (butlast prompt) (CHR ''/'') = 1"
    then obtain p c where "cut_prompt prompt = Inr (p, c)" using cut_prompt_one_slash by blast
    with h show False by simp
  qed
  with mem e show ?thesis by simp
qed

subsection \<open>What each method does, case by case\<close>

lemma invoke_eq:
  "run s = (r, w) \<Longrightarrow>
     invoke c shown run s = (r, s\<lparr>calls := calls s @ [(c, outcome_of shown r)], world := w\<rparr>)"
  by (simp add: invoke_def)

lemma set_base_prompt_raised:
  "find_prompt env s = (Inl e, w) \<Longrightarrow>
     set_base_prompt env s = (Inl e, s\<lparr>calls := calls s @ [(FindPrompt, Raised e)], world := w\<rparr>)"
  by (simp add: set_base_prompt_def invoke_def outcome_of_def)

lemma set_base_prompt_unpack:
  "find_prompt env s = (Inr raw, w) \<Longrightarrow> cut_prompt raw = Inl e \<Longrightarrow>
     set_base_prompt env s =
       (Inl e, s\<lparr>calls := calls s @ [(FindPrompt, Returned raw)], world := w\<rparr>)"
  by (simp add: set_base_prompt_def invoke_def outcome_of_def)

lemma set_base_prompt_parsed:
  "find_prompt env s = (Inr raw, w) \<Longrightarrow> cut_prompt raw = Inr (p, c) \<Longrightarrow>
     set_base_prompt env s =
       (Inr p, s\<lparr>calls := calls s @ [(FindPrompt, Returned raw)], world := w,
                 base_prompt := p, current_context := c,
                 base_pattern := pattern_format (re_escape (take 12 p)) ''>'' [backslash, CHR ''#'']\<rparr>)"
  by (simp add: set_base_prompt_def invoke_def outcome_of_def get_default_command_delimeter1
      get_default_command_delimeter2 re_escape_gt re_escape_hash Let_def
      del: re_escape.simps)

lemma send_command_raised:
  "send_command_base env cmd sp sc s = (Inl e, w) \<Longrightarrow>
     send_command env cmd sp sc s =
       (Inl e, s\<lparr>calls := calls s @ [(SendCommandBase cmd sp sc, Raised e)], world := w\<rparr>)"
  by (simp add: send_command_def invoke_def outcome_of_def)

lemma send_command_plain:
  "send_command_base env cmd sp sc s = (Inr out, w) \<Longrightarrow> \<not> str_in ''changet'' cmd \<Longrightarrow>
     send_command env cmd sp sc s =
       (Inr out, s\<lparr>calls := calls s @ [(SendCommandBase cmd sp sc, Returned out)], world := w\<rparr>)"
  by (simp add: send_command_def invoke_def outcome_of_def)

lemma send_command_refresh:
  "send_command_base env cmd sp sc s = (Inr out, w) \<Longrightarrow> str_in ''changet'' cmd \<Longrightarrow>
     send_command env cmd sp sc s =
       (case set_base_prompt env
               (s\<lparr>calls := calls s @ [(SendCommandBase cmd sp sc, Returned out)], world := w\<rparr>) of
          (Inl e, s2) \<Rightarrow> (Inl e, s2)
        | (Inr p, s2) \<Rightarrow> (Inr out, s2))"
  by (simp add: send_command_def invoke_def outcome_of_def)

subsection \<open>The parsed session and its pattern\<close>

lemma set_base_prompt_InrD:
  assumes "set_base_prompt env s = (Inr p, s')"
  shows "\<exists>raw w c. find_prompt env s = (Inr raw, w) \<and> cut_prompt raw = Inr (p, c)
           \<and> s' = s\<lparr>calls := calls s @ [(FindPrompt, Returned raw)], world := w,
                     base_prompt := p, current_context := c,
                     base_pattern := pattern_format (re_escape (take 12 p)) ''>'' [backslash, CHR ''#'']\<rparr>"
proof -
  obtain r w where fp: "find_prompt env s = (r, w)" by (cases "find_prompt env s")
  show ?thesis
  proof (cases r)
    case (Inl e)
    with fp assms show ?thesis by (simp add: set_base_prompt_raised)
  next
    case (Inr raw)
    show ?thesis
    proof (cases "cut_prompt raw")
      case (Inl e)
      with fp Inr assms show ?thesis by (simp add: set_base_prompt_unpack)
    next
      case cut: (Inr pc)
      obtain p' c where "pc = (p', c)" by (cases pc)
      with fp Inr cut assms show ?thesis
        using set_base_prompt_parsed [of env s raw w p' c] by auto
    qed
  qed
qed

lemma trailing_class_bracket:
  assumes "CHR ''['' \<notin> set cls"
  shows "trailing_class (x @ ''['' @ cls @ '']'') = Some cls"
proof -
  have b: "butlast (x @ ''['' @ cls @ '']'') = x @ ''['' @ cls"
    by (simp add: butlast_append)
  have "takeWhile (\<lambda>c. c \<noteq> CHR ''['') (rev cls @ CHR ''['' # rev x) = rev cls"
  proof -
    from assms have "\<forall>c\<in>set (rev cls). c \<noteq> CHR ''[''" by auto
    then show ?thesis by (simp add: takeWhile_tail)
  qed
  then have "rev (takeWhile (\<lambda>c. c \<noteq> CHR ''['') (rev (x @ ''['' @ cls))) = cls"
    by simp
  with b show ?thesis by (simp add: trailing_class_def)
qed

lemma pattern_format_groups:
  "pattern_format a b c = a @ ''.*'' @ context_group @ submode_group @ ''['' @ b @ ''|'' @ c @ '']''"
  by (simp add: pattern_format_def context_group_def submode_group_def)

lemma pattern_format_class:
  "trailing_class (pattern_format a ''>'' [backslash, CHR ''#'']) = Some (''>|'' @ [backslash] @ ''#'')"
proof -
  have "CHR ''['' \<notin> set (''>|'' @ [backslash] @ ''#'')" by (simp add: backslash_def)
  then have "trailing_class ((a @ ''.*'' @ context_group @ submode_group) @ ''['' @ (''>|'' @ [backslash] @ ''#'') @ '']'')
               = Some (''>|'' @ [backslash] @ ''#'')"
    by (rule trailing_class_bracket)
  then show ?thesis by (simp add: pattern_format_groups)
qed

lemma class_chars_asa: "class_chars (''>|'' @ [backslash] @ ''#'') = ''>|#''"
  by (simp add: backslash_def)

lemma split_unique:
  fixes sep :: char
  assumes "p @ sep # c = p' @ sep # c'" and "sep \<notin> set p" "sep \<notin> set c" "sep \<notin> set p'" "sep \<notin> set c'"
  shows "p = p' \<and> c = c'"
proof -
  have a: "split sep (p @ sep # c) = [p, c]" using assms(2,3) by (rule split_two_intro)
  have b: "split sep (p' @ sep # c') = [p', c']" using assms(4,5) by (rule split_two_intro)
  from assms(1) have "split sep (p @ sep # c) = split sep (p' @ sep # c')" by (rule arg_cong)
  with a b have "[p, c] = [p', c']" by (simp only:)
  then show ?thesis by simp
qed

subsection \<open>What each method adds to the record of calls\<close>

lemma set_base_prompt_log:
  assumes "set_base_prompt env s = (r, s')"
  shows "multiple_mode s' = multiple_mode s
         \<and> (\<exists>how. calls s' = calls s @ [(FindPrompt, how)]
               \<and> (case r of
                     Inl e \<Rightarrow> how = Raised e \<or> (\<exists>raw. how = Returned raw \<and> cut_prompt raw = Inl e)
                   | Inr p \<Rightarrow>
                       (\<exists>raw. how = Returned raw
                          \<and> cut_prompt raw = Inr (base_prompt s', current_context s'))
                       \<and> p = base_prompt s'
                       \<and> base_pattern s' =
                           pattern_format (re_escape (take 12 (base_prompt s'))) ''>''
                             [backslash, CHR ''#'']))"
proof -
  obtain r0 w where fp: "find_prompt env s = (r0, w)" by (cases "find_prompt env s")
  show ?thesis
  proof (cases r0)
    case (Inl e)
    with fp assms show ?thesis by (auto simp: set_base_prompt_raised)
  next
    case (Inr raw)
    show ?thesis
    proof (cases "cut_prompt raw")
      case (Inl e)
      with fp Inr assms show ?thesis by (auto simp: set_base_prompt_unpack)
    next
      case cut: (Inr pc)
      obtain p c where "pc = (p, c)" by (cases pc)
      with fp Inr cut assms show ?thesis
        using set_base_prompt_parsed [of env s raw w p c] by auto
    qed
  qed
qed

lemma invoke_unit_log:
  assumes "invoke c (\<lambda>u. Finished) run s = (r, s')"
  shows "calls s' = calls s @ [(c, case r of Inl e \<Rightarrow> Raised e | Inr u \<Rightarrow> Finished)]
         \<and> multiple_mode s' = multiple_mode s \<and> base_prompt s' = base_prompt s
         \<and> current_context s' = current_context s \<and> base_pattern s' = base_pattern s"
  using assms by (auto simp: invoke_def outcome_of_def split: prod.splits sum.splits)

lemma check_multiple_mode_log:
  assumes "check_multiple_mode env s = (r, s')"
  shows "base_prompt s' = base_prompt s \<and> current_context s' = current_context s
         \<and> base_pattern s' = base_pattern s
         \<and> (\<exists>how. calls s' = calls s @ [(SendCommandBase ''show mode'' True True, how)]
               \<and> (case r of
                     Inl e \<Rightarrow> how = Raised e
                   | Inr u \<Rightarrow> \<exists>out. how = Returned out
                               \<and> multiple_mode s' = (multiple_mode s \<or> str_in ''multiple'' out)))"
proof -
  obtain r0 w where b: "send_command_base env ''show mode'' True True s = (r0, w)"
    by (cases "send_command_base env ''show mode'' True True s")
  show ?thesis
  proof (cases r0)
    case (Inl e)
    with b assms show ?thesis
      by (auto simp: check_multiple_mode_def send_command_raised)
  next
    case (Inr out)
    with b have b': "send_command_base env ''show mode'' True True s = (Inr out, w)" by simp
    have "send_command env ''show mode'' True True s =
       (Inr out, s\<lparr>calls := calls s @ [(SendCommandBase ''show mode'' True True, Returned out)],
                   world := w\<rparr>)"
      by (rule send_command_plain [OF b' not_marker_show_mode])
    with assms show ?thesis
      by (auto simp: check_multiple_mode_def)
  qed
qed

subsection \<open>The calls of the connect sequence\<close>

lemma connect_calls_prefix:
  assumes "connect env s = (r, s')"
  shows "\<exists>new. calls s' = calls s @ new \<and> new \<noteq> []
           \<and> map fst new = take (length new) connect_steps
           \<and> (\<forall>x\<in>set (butlast new). \<forall>e. snd x \<noteq> Raised e)
           \<and> (case r of
                 Inr u \<Rightarrow>
                   \<exists>raw out.
                     new = [(EstablishConnection, Finished), (FindPrompt, Returned raw),
                            (Enable, Finished), (DisablePaging, Finished),
                            (SendCommandBase ''show mode'' True True, Returned out)]
                     \<and> cut_prompt raw = Inr (base_prompt s', current_context s')
                     \<and> base_pattern s' =
                         pattern_format (re_escape (take 12 (base_prompt s')))
                           (re_escape ''>'') (re_escape ''#'')
                     \<and> multiple_mode s' = (multiple_mode s \<or> str_in ''multiple'' out)
               | Inl e \<Rightarrow>
                   snd (last new) = Raised e
                   \<or> (\<exists>raw. new = [(EstablishConnection, Finished), (FindPrompt, Returned raw)]
                         \<and> cut_prompt raw = Inl e))"
proof -
  obtain r1 s1 where i1:
    "invoke EstablishConnection (\<lambda>u. Finished) (establish_connection env) s = (r1, s1)"
    by (cases "invoke EstablishConnection (\<lambda>u. Finished) (establish_connection env) s")
  note l1 = invoke_unit_log [OF i1]
  show ?thesis
  proof (cases r1)
    case (Inl e)
    with assms i1 have "r = Inl e" and "s' = s1" by (simp_all add: connect_def)
    with l1 Inl show ?thesis
      by (intro exI [of _ "[(EstablishConnection, Raised e)]"]) (simp add: connect_steps_def)
  next
    case ok1: (Inr u1)
    obtain r2 s2 where sb: "set_base_prompt env s1 = (r2, s2)"
      by (cases "set_base_prompt env s1")
    from set_base_prompt_log [OF sb] obtain how2 where
      l2: "calls s2 = calls s1 @ [(FindPrompt, how2)]"
      and m2: "multiple_mode s2 = multiple_mode s1"
      and c2: "case r2 of
                 Inl e \<Rightarrow> how2 = Raised e \<or> (\<exists>raw. how2 = Returned raw \<and> cut_prompt raw = Inl e)
               | Inr p \<Rightarrow>
                   (\<exists>raw. how2 = Returned raw
                      \<and> cut_prompt raw = Inr (base_prompt s2, current_context s2))
                   \<and> p = base_prompt s2
                   \<and> base_pattern s2 =
                       pattern_format (re_escape (take 12 (base_prompt s2))) ''>''
                         [backslash, CHR ''#'']"
      by blast
    from l1 l2 ok1 have log2: "calls s2 = calls s @ [(EstablishConnection, Finished), (FindPrompt, how2)]"
      by simp
    show ?thesis
    proof (cases r2)
      case (Inl e)
      with assms i1 ok1 sb have res: "r = Inl e" "s' = s2" by (simp_all add: connect_def)
      from c2 Inl have "how2 = Raised e \<or> (\<exists>raw. how2 = Returned raw \<and> cut_prompt raw = Inl e)"
        by simp
      with res log2 show ?thesis
        by (intro exI [of _ "[(EstablishConnection, Finished), (FindPrompt, how2)]"])
           (auto simp: connect_steps_def)
    next
      case ok2: (Inr p)
      with c2 obtain raw where how2: "how2 = Returned raw"
        and cut: "cut_prompt raw = Inr (base_prompt s2, current_context s2)"
        and pat: "base_pattern s2 =
                       pattern_format (re_escape (take 12 (base_prompt s2))) ''>''
                         [backslash, CHR ''#'']"
        by auto
      obtain r3 s3 where i3: "invoke Enable (\<lambda>u. Finished) (enable env) s2 = (r3, s3)"
        by (cases "invoke Enable (\<lambda>u. Finished) (enable env) s2")
      note l3 = invoke_unit_log [OF i3]
      show ?thesis
      proof (cases r3)
        case (Inl e)
        with assms i1 ok1 sb ok2 i3 have res: "r = Inl e" "s' = s3" by (simp_all add: connect_def)
        from l3 Inl log2 how2 have
          "calls s3 = calls s @ [(EstablishConnection, Finished), (FindPrompt, Returned raw),
                                 (Enable, Raised e)]"
          by simp
        with res show ?thesis
          by (intro exI [of _ "[(EstablishConnection, Finished), (FindPrompt, Returned raw),
                                 (Enable, Raised e)]"])
             (simp add: connect_steps_def)
      next
        case ok3: (Inr u3)
        obtain r4 s4 where i4:
          "invoke DisablePaging (\<lambda>u. Finished) (disable_paging env) s3 = (r4, s4)"
          by (cases "invoke DisablePaging (\<lambda>u. Finished) (disable_paging env) s3")
        note l4 = invoke_unit_log [OF i4]
        from l3 ok3 log2 how2 have log3:
          "calls s3 = calls s @ [(EstablishConnection, Finished), (FindPrompt, Returned raw),
                                 (Enable, Finished)]"
          by simp
        show ?thesis
        proof (cases r4)
          case (Inl e)
          with assms i1 ok1 sb ok2 i3 ok3 i4 have res: "r = Inl e" "s' = s4"
            by (simp_all add: connect_def)
          from l4 Inl log3 have
            "calls s4 = calls s @ [(EstablishConnection, Finished), (FindPrompt, Returned raw),
                                   (Enable, Finished), (DisablePaging, Raised e)]"
            by simp
          with res show ?thesis
            by (intro exI [of _ "[(EstablishConnection, Finished), (FindPrompt, Returned raw),
                                   (Enable, Finished), (DisablePaging, Raised e)]"])
               (simp add: connect_steps_def)
        next
          case ok4: (Inr u4)
          with assms i1 ok1 sb ok2 i3 ok3 i4 have cm: "check_multiple_mode env s4 = (r, s')"
            by (simp add: connect_def)
          from l4 ok4 log3 have log4:
            "calls s4 = calls s @ [(EstablishConnection, Finished), (FindPrompt, Returned raw),
                                   (Enable, Finished), (DisablePaging, Finished)]"
            by simp
          from check_multiple_mode_log [OF cm] obtain how5 where
            f5: "base_prompt s' = base_prompt s4" "current_context s' = current_context s4"
                "base_pattern s' = base_pattern s4"
            and l5: "calls s' = calls s4 @ [(SendCommandBase ''show mode'' True True, how5)]"
            and c5: "case r of
                       Inl e \<Rightarrow> how5 = Raised e
                     | Inr u \<Rightarrow> \<exists>out. how5 = Returned out
                                 \<and> multiple_mode s' = (multiple_mode s4 \<or> str_in ''multiple'' out)"
            by blast
          from l5 log4 have log5:
            "calls s' = calls s @ [(EstablishConnection, Finished), (FindPrompt, Returned raw),
                                   (Enable, Finished), (DisablePaging, Finished),
                                   (SendCommandBase ''show mode'' True True, how5)]"
            by simp
          from f5 l3 l4 have same: "base_prompt s' = base_prompt s2"
            "current_context s' = current_context s2" "base_pattern s' = base_pattern s2"
            by simp_all
          from l1 m2 l3 l4 have mode: "multiple_mode s4 = multiple_mode s" by simp
          show ?thesis
          proof (cases r)
            case (Inl e)
            with c5 have "how5 = Raised e" by simp
            with Inl log5 show ?thesis
              by (intro exI [of _ "[(EstablishConnection, Finished), (FindPrompt, Returned raw),
                                   (Enable, Finished), (DisablePaging, Finished),
                                   (SendCommandBase ''show mode'' True True, Raised e)]"])
                 (simp add: connect_steps_def)
          next
            case (Inr u)
            with c5 obtain out where how5: "how5 = Returned out"
              and mm: "multiple_mode s' = (multiple_mode s4 \<or> str_in ''multiple'' out)"
              by auto
            from pat same have pat': "base_pattern s' =
                  pattern_format (re_escape (take 12 (base_prompt s')))
                    (re_escape ''>'') (re_escape ''#'')"
              by (simp only: re_escape_gt re_escape_hash)
            from cut same have cut': "cut_prompt raw = Inr (base_prompt s', current_context s')"
              by simp
            from mm mode have mm': "multiple_mode s' = (multiple_mode s \<or> str_in ''multiple'' out)"
              by simp
            from Inr log5 how5 cut' pat' mm' show ?thesis
              by (intro exI [of _ "[(EstablishConnection, Finished), (FindPrompt, Returned raw),
                                   (Enable, Finished), (DisablePaging, Finished),
                                   (SendCommandBase ''show mode'' True True, Returned out)]"])
                 (simp add: connect_steps_def del: re_escape.simps)
          qed
        qed
      qed
    qed
  qed
qed

subsection \<open>The connect sequence, answer by answer\<close>

lemma reached_reached: "reached (reached s a w) b w' = reached s (a @ b) w'"
  by (simp add: reached_def)

lemma reached_identified: "reached (identified p c st) new w = identified p c (reached st new w)"
  by (simp add: reached_def identified_def)

lemma multiple_mode_reached: "multiple_mode (reached s new w) = multiple_mode s"
  by (simp add: reached_def)

lemma multiple_mode_identified: "multiple_mode (identified p c st) = multiple_mode st"
  by (simp add: identified_def)

lemma invoke_reached:
  "invoke c shown run s = (case run s of (r, w) \<Rightarrow> (r, reached s [(c, outcome_of shown r)] w))"
  by (simp add: invoke_def reached_def)

lemma set_base_prompt_reached:
  "set_base_prompt env s =
     (case find_prompt env s of
        (Inl e, w) \<Rightarrow> (Inl e, reached s [(FindPrompt, Raised e)] w)
      | (Inr raw, w) \<Rightarrow>
          (case cut_prompt raw of
             Inl e \<Rightarrow> (Inl e, reached s [(FindPrompt, Returned raw)] w)
           | Inr (p, c) \<Rightarrow>
               (Inr p, identified p c (reached s [(FindPrompt, Returned raw)] w))))"
  by (simp add: set_base_prompt_def invoke_def outcome_of_def reached_def identified_def
      get_default_command_delimeter1 get_default_command_delimeter2
      del: re_escape.simps split: prod.splits sum.splits)

lemma check_multiple_mode_reached:
  "check_multiple_mode env s =
     (case send_command_base env ''show mode'' True True s of
        (Inl e, w) \<Rightarrow>
          (Inl e, reached s [(SendCommandBase ''show mode'' True True, Raised e)] w)
      | (Inr out, w) \<Rightarrow>
          (Inr (), (reached s [(SendCommandBase ''show mode'' True True, Returned out)] w)
                     \<lparr>multiple_mode := multiple_mode s \<or> str_in ''multiple'' out\<rparr>))"
  by (simp add: check_multiple_mode_def send_command_def invoke_def outcome_of_def reached_def
      split: prod.splits sum.splits)

lemma connect_answers:
  "(case establish_connection env s of
      (Inl e, w1) \<Rightarrow> connect env s = (Inl e, reached s [(EstablishConnection, Raised e)] w1)
    | (Inr u1, w1) \<Rightarrow>
   (case find_prompt env (reached s [(EstablishConnection, Finished)] w1) of
      (Inl e, w2) \<Rightarrow>
        connect env s =
          (Inl e, reached s [(EstablishConnection, Finished), (FindPrompt, Raised e)] w2)
    | (Inr raw, w2) \<Rightarrow>
   (case cut_prompt raw of
      Inl e \<Rightarrow>
        connect env s =
          (Inl e, reached s [(EstablishConnection, Finished), (FindPrompt, Returned raw)] w2)
    | Inr (p, c) \<Rightarrow>
   (case enable env
           (identified p c
             (reached s [(EstablishConnection, Finished), (FindPrompt, Returned raw)] w2)) of
      (Inl e, w3) \<Rightarrow>
        connect env s =
          (Inl e, identified p c
                    (reached s [(EstablishConnection, Finished), (FindPrompt, Returned raw),
                                (Enable, Raised e)] w3))
    | (Inr u3, w3) \<Rightarrow>
   (case disable_paging env
           (identified p c
             (reached s [(EstablishConnection, Finished), (FindPrompt, Returned raw),
                         (Enable, Finished)] w3)) of
      (Inl e, w4) \<Rightarrow>
        connect env s =
          (Inl e, identified p c
                    (reached s [(EstablishConnection, Finished), (FindPrompt, Returned raw),
                                (Enable, Finished), (DisablePaging, Raised e)] w4))
    | (Inr u4, w4) \<Rightarrow>
   (case send_command_base env ''show mode'' True True
           (identified p c
             (reached s [(EstablishConnection, Finished), (FindPrompt, Returned raw),
                         (Enable, Finished), (DisablePaging, Finished)] w4)) of
      (Inl e, w5) \<Rightarrow>
        connect env s =
          (Inl e, identified p c
                    (reached s [(EstablishConnection, Finished), (FindPrompt, Returned raw),
                                (Enable, Finished), (DisablePaging, Finished),
                                (SendCommandBase ''show mode'' True True, Raised e)] w5))
    | (Inr out, w5) \<Rightarrow>
        connect env s =
          (Inr (), (identified p c
                     (reached s [(EstablishConnection, Finished), (FindPrompt, Returned raw),
                                 (Enable, Finished), (DisablePaging, Finished),
                                 (SendCommandBase ''show mode'' True True, Returned out)] w5))
                   \<lparr>multiple_mode := multiple_mode s \<or> str_in ''multiple'' out\<rparr>)))))))"
  by (simp add: connect_def invoke_reached set_base_prompt_reached check_multiple_mode_reached
      reached_reached reached_identified multiple_mode_reached multiple_mode_identified
      outcome_of_def del: re_escape.simps split: prod.splits sum.splits)

section \<open>The claims\<close>

text \<open>
  C8. The catalog lookup \<open>_get_default_command\<close> is a function of the name alone, over a
  fixed table: it returns \<open>>\<close> for \<open>delimeter1\<close> and \<open>#\<close> for \<open>delimeter2\<close>, it returns
  the table's entry for every name in the table, and for every name outside the table it
  fails with the error of the missing key (Python's \<open>KeyError\<close>, the unknown command kind
  of the specification).
\<close>

theorem get_default_command_catalog:
  "get_default_command ''delimeter1'' = Inr ''>''
   \<and> get_default_command ''delimeter2'' = Inr ''#''
   \<and> (\<forall>name. if name \<in> set (map fst command_mapper)
               then \<exists>v. get_default_command name = Inr v \<and> (name, v) \<in> set command_mapper
               else get_default_command name = Inl (KeyError name))"
proof -
  have "\<exists>v. get_default_command name = Inr v \<and> (name, v) \<in> set command_mapper"
    if "name \<in> set (map fst command_mapper)" for name
  proof -
    from that obtain v where v: "map_of command_mapper name = Some v"
      by (metis map_of_eq_None_iff not_Some_eq set_map)
    then have "(name, v) \<in> set command_mapper" by (rule map_of_SomeD)
    with v show ?thesis by (simp add: get_default_command_def)
  qed
  moreover have "get_default_command name = Inl (KeyError name)"
    if "name \<notin> set (map fst command_mapper)" for name
  proof -
    from that have "map_of command_mapper name = None" by (simp add: map_of_eq_None_iff)
    then show ?thesis by (simp add: get_default_command_def)
  qed
  ultimately show ?thesis
    using get_default_command_delimeter1 get_default_command_delimeter2 by simp
qed

theorem get_default_command_catalog_witness:
  "get_default_command ''reload'' = Inl (KeyError ''reload'')
   \<and> (\<exists>v. get_default_command ''priv_enter'' = Inr v)"
proof -
  have a: "''reload'' \<notin> set (map fst command_mapper)" by (simp add: command_mapper_keys)
  have b: "''priv_enter'' \<in> set (map fst command_mapper)" by (simp add: command_mapper_keys)
  from get_default_command_catalog have
    "\<forall>name. if name \<in> set (map fst command_mapper)
               then \<exists>v. get_default_command name = Inr v \<and> (name, v) \<in> set command_mapper
               else get_default_command name = Inl (KeyError name)" by blast
  then have "(if ''reload'' \<in> set (map fst command_mapper)
               then \<exists>v. get_default_command ''reload'' = Inr v \<and> (''reload'', v) \<in> set command_mapper
               else get_default_command ''reload'' = Inl (KeyError ''reload''))"
        and "(if ''priv_enter'' \<in> set (map fst command_mapper)
               then \<exists>v. get_default_command ''priv_enter'' = Inr v \<and> (''priv_enter'', v) \<in> set command_mapper
               else get_default_command ''priv_enter'' = Inl (KeyError ''priv_enter''))"
    by blast+
  with a b show ?thesis by auto
qed

text \<open>
  C7. For every raw prompt \<open>NAME#\<close> or \<open>NAME>\<close> in which \<open>NAME\<close> holds no \<open>/\<close>, the prompt
  parser succeeds, the context is \<open>system\<close> and the base prompt is \<open>NAME\<close>, the raw prompt
  without its last character.
\<close>

theorem set_base_prompt_plain_prompt:
  assumes "find_prompt env s = (Inr (name @ [d]), w)"
      and "d = CHR ''#'' \<or> d = CHR ''>''"
      and "CHR ''/'' \<notin> set name"
  shows "fst (set_base_prompt env s) = Inr name
         \<and> base_prompt (snd (set_base_prompt env s)) = name
         \<and> current_context (snd (set_base_prompt env s)) = ''system''"
proof -
  from assms(2,3) have "CHR ''/'' \<notin> set (name @ [d])" by auto
  then have "cut_prompt (name @ [d]) = Inr (butlast (name @ [d]), ''system'')"
    by (rule cut_prompt_no_slash)
  then have "cut_prompt (name @ [d]) = Inr (name, ''system'')" by simp
  with assms(1) show ?thesis by (simp add: set_base_prompt_parsed)
qed

theorem set_base_prompt_plain_prompt_witness:
  "fst (set_base_prompt (device ''ciscoasa#'' ''ok'') (init ())) = Inr ''ciscoasa''
   \<and> base_prompt (snd (set_base_prompt (device ''ciscoasa#'' ''ok'') (init ()))) = ''ciscoasa''
   \<and> current_context (snd (set_base_prompt (device ''ciscoasa#'' ''ok'') (init ()))) = ''system''"
proof -
  have a: "find_prompt (device ''ciscoasa#'' ''ok'') (init ()) = (Inr (''ciscoasa'' @ [CHR ''#'']), ())"
    by (simp add: device_def fixed_collaborator_def)
  have b: "CHR ''#'' = CHR ''#'' \<or> CHR ''#'' = CHR ''>''" by simp
  have c: "CHR ''/'' \<notin> set ''ciscoasa''" by simp
  from set_base_prompt_plain_prompt [OF a b c] show ?thesis .
qed

text \<open>
  C1, as the code has it. For every raw prompt whose text before the last character
  holds exactly one \<open>/\<close>, the prompt parser succeeds: it drops the last character and
  splits the rest at that \<open>/\<close>, the context is the text after it and the base prompt the
  text before it. In particular a raw prompt \<open>NAME/CTX#\<close> with no further \<open>/\<close> gives the
  context \<open>CTX\<close> and the base prompt \<open>NAME\<close>. A prompt with more than one \<open>/\<close> is not split
  at its last \<open>/\<close>: the unpacking fails, as the counterexample shows.
\<close>

theorem set_base_prompt_context_prompt:
  assumes "find_prompt env s = (Inr raw, w)"
      and "count_list (butlast raw) (CHR ''/'') = 1"
  shows "fst (set_base_prompt env s) = Inr (base_prompt (snd (set_base_prompt env s)))
         \<and> butlast raw = base_prompt (snd (set_base_prompt env s)) @ ''/''
                            @ current_context (snd (set_base_prompt env s))
         \<and> CHR ''/'' \<notin> set (current_context (snd (set_base_prompt env s)))
         \<and> (\<forall>name ctx d. raw = name @ ''/'' @ ctx @ [d] \<longrightarrow>
               base_prompt (snd (set_base_prompt env s)) = name
               \<and> current_context (snd (set_base_prompt env s)) = ctx)"
proof -
  from assms(2) obtain p c where cut: "cut_prompt raw = Inr (p, c)"
    and parts: "butlast raw = p @ ''/'' @ c" "CHR ''/'' \<notin> set p" "CHR ''/'' \<notin> set c"
    using cut_prompt_one_slash by blast
  from assms(1) cut have res: "fst (set_base_prompt env s) = Inr p"
    "base_prompt (snd (set_base_prompt env s)) = p"
    "current_context (snd (set_base_prompt env s)) = c"
    by (simp_all add: set_base_prompt_parsed)
  have "p = name \<and> c = ctx" if raw: "raw = name @ ''/'' @ ctx @ [d]" for name ctx d
  proof -
    from raw have b: "butlast raw = name @ CHR ''/'' # ctx" by (simp add: butlast_append)
    with assms(2) have "CHR ''/'' \<notin> set name" "CHR ''/'' \<notin> set ctx"
      by (auto simp: count_list_0_iff split: if_splits)
    with parts b show ?thesis using split_unique [of p "CHR ''/''" c name ctx] by simp
  qed
  with res parts show ?thesis by simp
qed

theorem set_base_prompt_context_prompt_witness:
  "base_prompt (snd (set_base_prompt (device ''ciscoasa/admin#'' ''ok'') (init ()))) = ''ciscoasa''
   \<and> current_context (snd (set_base_prompt (device ''ciscoasa/admin#'' ''ok'') (init ()))) = ''admin''"
proof -
  have a: "find_prompt (device ''ciscoasa/admin#'' ''ok'') (init ()) = (Inr ''ciscoasa/admin#'', ())"
    by (simp add: device_def fixed_collaborator_def)
  have b: "count_list (butlast ''ciscoasa/admin#'') (CHR ''/'') = 1" by simp
  have c: "''ciscoasa/admin#'' = ''ciscoasa'' @ ''/'' @ ''admin'' @ [CHR ''#'']" by simp
  from set_base_prompt_context_prompt [OF a b] c show ?thesis by blast
qed

theorem set_base_prompt_two_slashes_counterexample:
  "CHR ''/'' \<in> set ''fw/dmz/admin#''
   \<and> fst (set_base_prompt (device ''fw/dmz/admin#'' ''ok'') (init ())) = Inl ValueError
   \<and> current_context (snd (set_base_prompt (device ''fw/dmz/admin#'' ''ok'') (init ()))) \<noteq> ''admin''
   \<and> base_prompt (snd (set_base_prompt (device ''fw/dmz/admin#'' ''ok'') (init ()))) \<noteq> ''fw/dmz''"
  by (simp add: set_base_prompt_def invoke_def outcome_of_def device_def fixed_collaborator_def
      init_def cut_prompt_def)

text \<open>
  C2, as the code has it. The prompt parser never looks at the character that ends the
  raw prompt. When prompt discovery returns a raw prompt, the parser succeeds if the
  prompt holds no \<open>/\<close> or if its text before the last character holds exactly one \<open>/\<close>,
  whatever the last character is; otherwise it fails with \<open>ValueError\<close>, the error of the
  two-target unpacking. An error of prompt discovery itself is passed on unchanged. The
  counterexample: a prompt without a delimiter is accepted, and a prompt that ends with
  \<open>#\<close> is refused.
\<close>

theorem set_base_prompt_failure_paths:
  "(find_prompt env s = (Inl e, w) \<longrightarrow> fst (set_base_prompt env s) = Inl e)
   \<and> (find_prompt env s = (Inr raw, w) \<longrightarrow>
        (if CHR ''/'' \<notin> set raw \<or> count_list (butlast raw) (CHR ''/'') = 1
         then \<exists>p. fst (set_base_prompt env s) = Inr p
         else fst (set_base_prompt env s) = Inl ValueError))"
proof -
  have "\<exists>p. fst (set_base_prompt env s) = Inr p"
    if fp: "find_prompt env s = (Inr raw, w)"
      and ok: "CHR ''/'' \<notin> set raw \<or> count_list (butlast raw) (CHR ''/'') = 1"
  proof -
    from ok obtain p c where "cut_prompt raw = Inr (p, c)"
      using cut_prompt_no_slash cut_prompt_one_slash by blast
    with fp show ?thesis by (simp add: set_base_prompt_parsed)
  qed
  moreover have "fst (set_base_prompt env s) = Inl ValueError"
    if fp: "find_prompt env s = (Inr raw, w)"
      and bad: "\<not> (CHR ''/'' \<notin> set raw \<or> count_list (butlast raw) (CHR ''/'') = 1)"
  proof (cases "cut_prompt raw")
    case (Inl e)
    then have "e = ValueError" using cut_prompt_error by blast
    with fp Inl show ?thesis by (simp add: set_base_prompt_unpack)
  next
    case (Inr pc)
    obtain p c where "pc = (p, c)" by (cases pc)
    with Inr bad have "butlast raw = p @ ''/'' @ c \<and> CHR ''/'' \<notin> set p \<and> CHR ''/'' \<notin> set c"
      using cut_prompt_Inr_slash [of raw p c] by simp
    then have "count_list (butlast raw) (CHR ''/'') = 1" by (simp add: count_list_0_iff)
    with bad show ?thesis by simp
  qed
  ultimately show ?thesis by (simp add: set_base_prompt_raised)
qed

theorem set_base_prompt_failure_paths_witness:
  "fst (set_base_prompt (device ''ciscoasa>'' ''ok'') (init ())) \<noteq> Inl ValueError
   \<and> fst (set_base_prompt (device ''a/b/c>'' ''ok'') (init ())) = Inl ValueError
   \<and> fst (set_base_prompt (fixed_collaborator (Inr ()) (Inl (CollaboratorError ''timeout'')) (Inr ()) (Inr ()) (Inr ''ok'')) (init ()))
       = Inl (CollaboratorError ''timeout'')"
proof -
  have a: "find_prompt (device ''ciscoasa>'' ''ok'') (init ()) = (Inr ''ciscoasa>'', ())"
    by (simp add: device_def fixed_collaborator_def)
  have b: "find_prompt (device ''a/b/c>'' ''ok'') (init ()) = (Inr ''a/b/c>'', ())"
    by (simp add: device_def fixed_collaborator_def)
  have c: "find_prompt (fixed_collaborator (Inr ()) (Inl (CollaboratorError ''timeout'')) (Inr ()) (Inr ()) (Inr ''ok'')) (init ())
             = (Inl (CollaboratorError ''timeout''), ())"
    by (simp add: fixed_collaborator_def)
  have "\<exists>p. fst (set_base_prompt (device ''ciscoasa>'' ''ok'') (init ())) = Inr p"
    using set_base_prompt_failure_paths [of "device ''ciscoasa>'' ''ok''" "init ()" _ "()" "''ciscoasa>''"] a
    by simp
  moreover have "fst (set_base_prompt (device ''a/b/c>'' ''ok'') (init ())) = Inl ValueError"
    using set_base_prompt_failure_paths [of "device ''a/b/c>'' ''ok''" "init ()" _ "()" "''a/b/c>''"] b
    by simp
  moreover have "fst (set_base_prompt (fixed_collaborator (Inr ()) (Inl (CollaboratorError ''timeout'')) (Inr ()) (Inr ()) (Inr ''ok'')) (init ()))
       = Inl (CollaboratorError ''timeout'')"
    using set_base_prompt_failure_paths [of _ "init ()" "CollaboratorError ''timeout''" "()"] c
    by blast
  ultimately show ?thesis by auto
qed

theorem set_base_prompt_delimiter_counterexample:
  "last ''ciscoasa'' \<noteq> CHR ''>'' \<and> last ''ciscoasa'' \<noteq> CHR ''#''
   \<and> fst (set_base_prompt (device ''ciscoasa'' ''ok'') (init ())) = Inr ''ciscoas''
   \<and> last ''fw/a/b#'' = CHR ''#''
   \<and> fst (set_base_prompt (device ''fw/a/b#'' ''ok'') (init ())) = Inl ValueError"
  by (simp add: set_base_prompt_def invoke_def outcome_of_def device_def fixed_collaborator_def
      init_def cut_prompt_def get_default_command_delimeter1 get_default_command_delimeter2)

text \<open>
  C5. After every successful \<open>_set_base_prompt\<close> the pattern is the one derived from the
  base prompt and the two delimiters of the catalog: the escaped first twelve characters
  of the base prompt, then \<open>.*\<close>, the optional context group, the optional sub-mode
  group, and a closing bracket expression made of the two escaped delimiters around a
  \<open>|\<close>; both \<open>>\<close> and \<open>#\<close> are among the characters of that bracket expression.
\<close>

theorem base_pattern_derived:
  assumes "set_base_prompt env s = (Inr p, s')"
  shows "get_default_command ''delimeter1'' = Inr ''>''
         \<and> get_default_command ''delimeter2'' = Inr ''#''
         \<and> base_pattern s' =
             re_escape (take 12 (base_prompt s')) @ ''.*'' @ context_group @ submode_group
               @ ''['' @ re_escape ''>'' @ ''|'' @ re_escape ''#'' @ '']''
         \<and> (\<exists>cls. trailing_class (base_pattern s') = Some cls
               \<and> CHR ''>'' \<in> set (class_chars cls) \<and> CHR ''#'' \<in> set (class_chars cls))"
proof -
  from assms obtain raw w c where
    s': "s' = s\<lparr>calls := calls s @ [(FindPrompt, Returned raw)], world := w,
                base_prompt := p, current_context := c,
                base_pattern := pattern_format (re_escape (take 12 p)) ''>'' [backslash, CHR ''#'']\<rparr>"
    using set_base_prompt_InrD by blast
  then have bp: "base_prompt s' = p"
    and pat: "base_pattern s' = pattern_format (re_escape (take 12 p)) ''>'' [backslash, CHR ''#'']"
    by simp_all
  from pat have "trailing_class (base_pattern s') = Some (''>|'' @ [backslash] @ ''#'')"
    by (simp only: pattern_format_class)
  moreover have "CHR ''>'' \<in> set (class_chars (''>|'' @ [backslash] @ ''#''))"
    and "CHR ''#'' \<in> set (class_chars (''>|'' @ [backslash] @ ''#''))"
    by (simp_all add: backslash_def)
  ultimately have cls: "\<exists>cls. trailing_class (base_pattern s') = Some cls
               \<and> CHR ''>'' \<in> set (class_chars cls) \<and> CHR ''#'' \<in> set (class_chars cls)"
    by blast
  from bp pat have "base_pattern s' =
             re_escape (take 12 (base_prompt s')) @ ''.*'' @ context_group @ submode_group
               @ ''['' @ re_escape ''>'' @ ''|'' @ re_escape ''#'' @ '']''"
    by (simp only: pattern_format_groups re_escape_gt re_escape_hash)
  with cls show ?thesis
    using get_default_command_delimeter1 get_default_command_delimeter2 by blast
qed

theorem base_pattern_derived_witness:
  "base_pattern (snd (set_base_prompt (device ''ciscoasa/admin#'' ''ok'') (init ())))
     = ''ciscoasa.*'' @ context_group @ submode_group @ ''[>|'' @ [backslash] @ ''#]''"
proof -
  have fp: "find_prompt (device ''ciscoasa/admin#'' ''ok'') (init ()) = (Inr ''ciscoasa/admin#'', ())"
    by (simp add: device_def fixed_collaborator_def)
  have cut: "cut_prompt ''ciscoasa/admin#'' = Inr (''ciscoasa'', ''admin'')"
    by (simp add: cut_prompt_def)
  have run: "set_base_prompt (device ''ciscoasa/admin#'' ''ok'') (init ())
          = (Inr ''ciscoasa'', snd (set_base_prompt (device ''ciscoasa/admin#'' ''ok'') (init ())))"
    by (simp add: set_base_prompt_parsed [OF fp cut])
  have bp: "base_prompt (snd (set_base_prompt (device ''ciscoasa/admin#'' ''ok'') (init ()))) = ''ciscoasa''"
    by (simp add: set_base_prompt_parsed [OF fp cut])
  have esc: "re_escape ''ciscoasa'' = ''ciscoasa''"
    by (simp add: special_chars_def backslash_def)
  from base_pattern_derived [OF run] have
    "base_pattern (snd (set_base_prompt (device ''ciscoasa/admin#'' ''ok'') (init ()))) =
       re_escape (take 12 (base_prompt (snd (set_base_prompt (device ''ciscoasa/admin#'' ''ok'') (init ())))))
         @ ''.*'' @ context_group @ submode_group
         @ ''['' @ re_escape ''>'' @ ''|'' @ re_escape ''#'' @ '']''"
    by blast
  then show ?thesis
    by (simp only: bp re_escape_gt re_escape_hash) (simp add: esc del: re_escape.simps)
qed

text \<open>
  C10. After every successful \<open>_set_base_prompt\<close>, whatever the base prompt, the bracket
  expression that closes the pattern stands for exactly the characters \<open>>\<close>, \<open>|\<close> and \<open>#\<close>:
  the \<open>|\<close> of the format string is a literal member of the class, next to the two
  delimiters.
\<close>

theorem base_pattern_class_has_bar:
  assumes "set_base_prompt env s = (Inr p, s')"
  shows "\<exists>cls. trailing_class (base_pattern s') = Some cls \<and> class_chars cls = ''>|#''
               \<and> CHR ''|'' \<in> set (class_chars cls)"
proof -
  from assms obtain raw w c where
    "s' = s\<lparr>calls := calls s @ [(FindPrompt, Returned raw)], world := w,
                base_prompt := p, current_context := c,
                base_pattern := pattern_format (re_escape (take 12 p)) ''>'' [backslash, CHR ''#'']\<rparr>"
    using set_base_prompt_InrD by blast
  then have "base_pattern s' = pattern_format (re_escape (take 12 p)) ''>'' [backslash, CHR ''#'']"
    by simp
  then have "trailing_class (base_pattern s') = Some (''>|'' @ [backslash] @ ''#'')"
    by (simp only: pattern_format_class)
  moreover have "CHR ''|'' \<in> set ''>|#''" by simp
  ultimately show ?thesis using class_chars_asa by auto
qed

theorem base_pattern_class_has_bar_witness:
  "\<exists>cls. trailing_class (base_pattern (snd (set_base_prompt (device ''fw>'' ''ok'') (init ())))) = Some cls
         \<and> class_chars cls = ''>|#'' \<and> CHR ''|'' \<in> set (class_chars cls)"
proof -
  have fp: "find_prompt (device ''fw>'' ''ok'') (init ()) = (Inr ''fw>'', ())"
    by (simp add: device_def fixed_collaborator_def)
  have cut: "cut_prompt ''fw>'' = Inr (''fw'', ''system'')"
    by (simp add: cut_prompt_def)
  have run: "set_base_prompt (device ''fw>'' ''ok'') (init ())
          = (Inr ''fw'', snd (set_base_prompt (device ''fw>'' ''ok'') (init ())))"
    by (simp add: set_base_prompt_parsed [OF fp cut])
  from base_pattern_class_has_bar [OF run] show ?thesis .
qed

text \<open>
  C3, as the code has it. Suppose the generic command-send primitive of the base class
  returns an output for the command. Then \<open>send_command\<close> calls prompt discovery, once
  and right after the primitive, exactly when the command text contains \<open>changet\<close>.
  Without the marker it returns the primitive's output and changes nothing else. With
  the marker the session afterwards is the one \<open>_set_base_prompt\<close> leaves, and the
  result is the primitive's output if the refresh succeeded and the refresh's error if
  it failed. Whatever value \<open>send_command\<close> returns is the primitive's output. The
  counterexample: the primitive returns \<open>ok\<close>, the refresh raises, and the caller gets
  the refresh's error instead of \<open>ok\<close>.
\<close>

theorem send_command_output:
  assumes "send_command_base env cmd sp sc s = (Inr out, w)"
      and "send_command env cmd sp sc s = (r, s')"
  shows "((FindPrompt \<in> fst ` set (drop (length (calls s)) (calls s'))) = str_in ''changet'' cmd)
         \<and> (\<forall>v. r = Inr v \<longrightarrow> v = out)
         \<and> (if str_in ''changet'' cmd
            then s' = snd (set_base_prompt env
                        (s\<lparr>calls := calls s @ [(SendCommandBase cmd sp sc, Returned out)], world := w\<rparr>))
                 \<and> r = (case fst (set_base_prompt env
                        (s\<lparr>calls := calls s @ [(SendCommandBase cmd sp sc, Returned out)], world := w\<rparr>)) of
                          Inl e \<Rightarrow> Inl e | Inr p \<Rightarrow> Inr out)
            else s' = s\<lparr>calls := calls s @ [(SendCommandBase cmd sp sc, Returned out)], world := w\<rparr>
                 \<and> r = Inr out)"
proof (cases "str_in ''changet'' cmd")
  case False
  with assms have "r = Inr out"
    and "s' = s\<lparr>calls := calls s @ [(SendCommandBase cmd sp sc, Returned out)], world := w\<rparr>"
    by (simp_all add: send_command_plain)
  with False show ?thesis by simp
next
  case True
  define s1 where "s1 = s\<lparr>calls := calls s @ [(SendCommandBase cmd sp sc, Returned out)], world := w\<rparr>"
  obtain r2 s2 where sb: "set_base_prompt env s1 = (r2, s2)" by (cases "set_base_prompt env s1")
  from assms True have run: "(r, s') = (case set_base_prompt env s1 of
          (Inl e, s2) \<Rightarrow> (Inl e, s2) | (Inr p, s2) \<Rightarrow> (Inr out, s2))"
    unfolding s1_def by (simp add: send_command_refresh)
  with sb have s': "s' = s2" and r: "r = (case r2 of Inl e \<Rightarrow> Inl e | Inr p \<Rightarrow> Inr out)"
    by (auto split: sum.splits)
  from sb obtain how where "calls s2 = calls s1 @ [(FindPrompt, how)]"
    using set_base_prompt_log by blast
  then have log: "calls s' = calls s @ [(SendCommandBase cmd sp sc, Returned out), (FindPrompt, how)]"
    using s' by (simp add: s1_def)
  have "FindPrompt \<in> fst ` set (drop (length (calls s)) (calls s'))"
    by (simp add: log)
  moreover have "\<forall>v. r = Inr v \<longrightarrow> v = out" using r by (auto split: sum.splits)
  moreover have "s' = snd (set_base_prompt env s1)" using sb s' by simp
  moreover have "r = (case fst (set_base_prompt env s1) of Inl e \<Rightarrow> Inl e | Inr p \<Rightarrow> Inr out)"
    using sb r by simp
  ultimately show ?thesis using True unfolding s1_def by simp
qed

theorem send_command_output_witness:
  "send_command (device ''ciscoasa/admin#'' ''ok'') ''changeto context admin'' True True (init ())
     = (Inr ''ok'', snd (set_base_prompt (device ''ciscoasa/admin#'' ''ok'')
          ((init ())\<lparr>calls := [(SendCommandBase ''changeto context admin'' True True, Returned ''ok'')]\<rparr>)))
   \<and> send_command (device ''ciscoasa#'' ''up'') ''show version'' False True (init ())
     = (Inr ''up'', (init ())\<lparr>calls := [(SendCommandBase ''show version'' False True, Returned ''up'')]\<rparr>)"
proof -
  let ?D = "device ''ciscoasa/admin#'' ''ok''"
  let ?s1 = "(init ())\<lparr>calls := calls (init ()) @ [(SendCommandBase ''changeto context admin'' True True, Returned ''ok'')], world := ()\<rparr>"
  have b: "send_command_base ?D ''changeto context admin'' True True (init ()) = (Inr ''ok'', ())"
    by (simp add: device_def fixed_collaborator_def)
  have m: "str_in ''changet'' ''changeto context admin''" by simp
  have fp: "find_prompt ?D ?s1 = (Inr ''ciscoasa/admin#'', ())"
    by (simp add: device_def fixed_collaborator_def)
  have cut: "cut_prompt ''ciscoasa/admin#'' = Inr (''ciscoasa'', ''admin'')"
    by (simp add: cut_prompt_def)
  have ok: "fst (set_base_prompt ?D ?s1) = Inr ''ciscoasa''"
    by (simp add: set_base_prompt_parsed [OF fp cut])
  have e: "send_command ?D ''changeto context admin'' True True (init ())
         = (fst (send_command ?D ''changeto context admin'' True True (init ())),
            snd (send_command ?D ''changeto context admin'' True True (init ())))" by simp
  from send_command_output [OF b e] m ok
  have "snd (send_command ?D ''changeto context admin'' True True (init ())) = snd (set_base_prompt ?D ?s1)"
    and "fst (send_command ?D ''changeto context admin'' True True (init ())) = Inr ''ok''"
    by simp_all
  then have one: "send_command ?D ''changeto context admin'' True True (init ())
     = (Inr ''ok'', snd (set_base_prompt ?D ?s1))"
    by (metis prod.collapse)
  let ?E = "device ''ciscoasa#'' ''up''"
  have b2: "send_command_base ?E ''show version'' False True (init ()) = (Inr ''up'', ())"
    by (simp add: device_def fixed_collaborator_def)
  have m2: "\<not> str_in ''changet'' ''show version''" by simp
  have e2: "send_command ?E ''show version'' False True (init ())
         = (fst (send_command ?E ''show version'' False True (init ())),
            snd (send_command ?E ''show version'' False True (init ())))" by simp
  from send_command_output [OF b2 e2] m2
  have "snd (send_command ?E ''show version'' False True (init ()))
          = (init ())\<lparr>calls := calls (init ()) @ [(SendCommandBase ''show version'' False True, Returned ''up'')], world := ()\<rparr>"
    and "fst (send_command ?E ''show version'' False True (init ())) = Inr ''up''"
    by simp_all
  then have two: "send_command ?E ''show version'' False True (init ())
     = (Inr ''up'', (init ())\<lparr>calls := calls (init ()) @ [(SendCommandBase ''show version'' False True, Returned ''up'')], world := ()\<rparr>)"
    by (metis prod.collapse)
  from one two show ?thesis by (simp add: init_def)
qed

theorem send_command_refresh_failure_counterexample:
  "fst (send_command_base
          (fixed_collaborator (Inr ()) (Inl (CollaboratorError ''timeout'')) (Inr ()) (Inr ()) (Inr ''ok''))
          ''changeto context admin'' True True (init ())) = Inr ''ok''
   \<and> fst (send_command
          (fixed_collaborator (Inr ()) (Inl (CollaboratorError ''timeout'')) (Inr ()) (Inr ()) (Inr ''ok''))
          ''changeto context admin'' True True (init ())) = Inl (CollaboratorError ''timeout'')
   \<and> fst (send_command_base (device ''fw/a/b#'' ''ok'') ''changeto context b'' True True (init ()))
       = Inr ''ok''
   \<and> fst (send_command (device ''fw/a/b#'' ''ok'') ''changeto context b'' True True (init ()))
       = Inl ValueError"
  by (simp add: send_command_def set_base_prompt_def invoke_def outcome_of_def device_def
      fixed_collaborator_def init_def cut_prompt_def)

text \<open>
  C9. Whatever the value \<open>m\<close> of \<open>multiple_mode\<close>, and so in single-context mode too: when
  the command text contains \<open>changet\<close> and the primitive of the base class returns an
  output, \<open>send_command\<close> runs \<open>_set_base_prompt\<close> on the session the primitive left.
  Prompt discovery is called right after the primitive, the session afterwards is the
  one \<open>_set_base_prompt\<close> leaves, and \<open>multiple_mode\<close> is still \<open>m\<close>.
\<close>

theorem send_command_refresh_any_mode:
  assumes "send_command_base env cmd sp sc (s\<lparr>multiple_mode := m\<rparr>) = (Inr out, w)"
      and "str_in ''changet'' cmd"
  shows "snd (send_command env cmd sp sc (s\<lparr>multiple_mode := m\<rparr>))
           = snd (set_base_prompt env
                   (s\<lparr>multiple_mode := m,
                      calls := calls s @ [(SendCommandBase cmd sp sc, Returned out)], world := w\<rparr>))
         \<and> (\<exists>how. calls (snd (send_command env cmd sp sc (s\<lparr>multiple_mode := m\<rparr>)))
                     = calls s @ [(SendCommandBase cmd sp sc, Returned out), (FindPrompt, how)])
         \<and> multiple_mode (snd (send_command env cmd sp sc (s\<lparr>multiple_mode := m\<rparr>))) = m"
proof -
  define s1 where "s1 = s\<lparr>multiple_mode := m,
                      calls := calls s @ [(SendCommandBase cmd sp sc, Returned out)], world := w\<rparr>"
  obtain r2 s2 where sb: "set_base_prompt env s1 = (r2, s2)" by (cases "set_base_prompt env s1")
  from assms have "send_command env cmd sp sc (s\<lparr>multiple_mode := m\<rparr>) =
       (case set_base_prompt env s1 of
          (Inl e, s2) \<Rightarrow> (Inl e, s2) | (Inr p, s2) \<Rightarrow> (Inr out, s2))"
    unfolding s1_def by (simp add: send_command_refresh)
  with sb have s': "snd (send_command env cmd sp sc (s\<lparr>multiple_mode := m\<rparr>)) = s2"
    by (auto split: sum.splits)
  from sb obtain how where "calls s2 = calls s1 @ [(FindPrompt, how)]"
    and "multiple_mode s2 = multiple_mode s1"
    using set_base_prompt_log by blast
  then have "calls s2 = calls s @ [(SendCommandBase cmd sp sc, Returned out), (FindPrompt, how)]"
    and "multiple_mode s2 = m"
    by (simp_all add: s1_def)
  with s' sb show ?thesis unfolding s1_def by simp
qed

theorem send_command_refresh_any_mode_witness:
  "multiple_mode ((init ())\<lparr>multiple_mode := False\<rparr>) = False
   \<and> calls (snd (send_command (device ''ciscoasa#'' ''ok'') ''changeto system'' True True
                 ((init ())\<lparr>multiple_mode := False\<rparr>)))
       = [(SendCommandBase ''changeto system'' True True, Returned ''ok''),
          (FindPrompt, Returned ''ciscoasa#'')]
   \<and> calls (snd (send_command (device ''ciscoasa/admin#'' ''ok'') ''changeto context admin'' True True
                 ((init ())\<lparr>multiple_mode := True\<rparr>)))
       = [(SendCommandBase ''changeto context admin'' True True, Returned ''ok''),
          (FindPrompt, Returned ''ciscoasa/admin#'')]"
proof -
  let ?D = "device ''ciscoasa#'' ''ok''"
  have b: "send_command_base ?D ''changeto system'' True True ((init ())\<lparr>multiple_mode := False\<rparr>)
             = (Inr ''ok'', ())"
    by (simp add: device_def fixed_collaborator_def)
  have m: "str_in ''changet'' ''changeto system''" by simp
  have fp: "find_prompt ?D
              ((init ())\<lparr>multiple_mode := False,
                 calls := calls (init ()) @ [(SendCommandBase ''changeto system'' True True, Returned ''ok'')],
                 world := ()\<rparr>) = (Inr ''ciscoasa#'', ())"
    by (simp add: device_def fixed_collaborator_def)
  have cut: "cut_prompt ''ciscoasa#'' = Inr (''ciscoasa'', ''system'')"
    by (simp add: cut_prompt_def)
  have one: "calls (snd (send_command ?D ''changeto system'' True True
                 ((init ())\<lparr>multiple_mode := False\<rparr>)))
       = [(SendCommandBase ''changeto system'' True True, Returned ''ok''),
          (FindPrompt, Returned ''ciscoasa#'')]"
    using send_command_refresh_any_mode [OF b m]
    by (simp add: set_base_prompt_parsed [OF fp cut]) (simp add: init_def)
  let ?E = "device ''ciscoasa/admin#'' ''ok''"
  have b2: "send_command_base ?E ''changeto context admin'' True True ((init ())\<lparr>multiple_mode := True\<rparr>)
             = (Inr ''ok'', ())"
    by (simp add: device_def fixed_collaborator_def)
  have m2: "str_in ''changet'' ''changeto context admin''" by simp
  have fp2: "find_prompt ?E
              ((init ())\<lparr>multiple_mode := True,
                 calls := calls (init ()) @ [(SendCommandBase ''changeto context admin'' True True, Returned ''ok'')],
                 world := ()\<rparr>) = (Inr ''ciscoasa/admin#'', ())"
    by (simp add: device_def fixed_collaborator_def)
  have cut2: "cut_prompt ''ciscoasa/admin#'' = Inr (''ciscoasa'', ''admin'')"
    by (simp add: cut_prompt_def)
  have two: "calls (snd (send_command ?E ''changeto context admin'' True True
                 ((init ())\<lparr>multiple_mode := True\<rparr>)))
       = [(SendCommandBase ''changeto context admin'' True True, Returned ''ok''),
          (FindPrompt, Returned ''ciscoasa/admin#'')]"
    using send_command_refresh_any_mode [OF b2 m2]
    by (simp add: set_base_prompt_parsed [OF fp2 cut2]) (simp add: init_def)
  from one two show ?thesis by simp
qed

text \<open>
  C4. On a session whose \<open>multiple_mode\<close> is still false, when the command \<open>show mode\<close> is
  answered with a text, \<open>_check_multiple_mode\<close> succeeds and \<open>multiple_mode\<close> afterwards is
  true exactly when the answer contains \<open>multiple\<close> somewhere; the answer \<open>single\<close> leaves
  it false.
\<close>

theorem check_multiple_mode_detects:
  assumes "multiple_mode s = False"
      and "send_command_base env ''show mode'' True True s = (Inr out, w)"
  shows "fst (check_multiple_mode env s) = Inr ()
         \<and> multiple_mode (snd (check_multiple_mode env s)) = str_in ''multiple'' out
         \<and> str_in ''multiple'' out = (\<exists>a b. out = a @ ''multiple'' @ b)
         \<and> (out = ''single'' \<longrightarrow> \<not> multiple_mode (snd (check_multiple_mode env s)))"
proof -
  have run: "send_command env ''show mode'' True True s =
       (Inr out, s\<lparr>calls := calls s @ [(SendCommandBase ''show mode'' True True, Returned out)],
                   world := w\<rparr>)"
    by (rule send_command_plain [OF assms(2) not_marker_show_mode])
  then have ok: "fst (check_multiple_mode env s) = Inr ()"
    by (simp add: check_multiple_mode_def)
  from run assms(1) have mode: "multiple_mode (snd (check_multiple_mode env s)) = str_in ''multiple'' out"
    by (simp add: check_multiple_mode_def)
  have "\<not> str_in ''multiple'' ''single''" by simp
  with mode have "out = ''single'' \<longrightarrow> \<not> multiple_mode (snd (check_multiple_mode env s))"
    by blast
  with ok mode show ?thesis using str_in_iff [of "''multiple''" out] by blast
qed

theorem check_multiple_mode_detects_witness:
  "multiple_mode (snd (check_multiple_mode (device ''ciscoasa#'' ''Security context mode: multiple'') (init ())))
   \<and> \<not> multiple_mode (snd (check_multiple_mode (device ''ciscoasa#'' ''single'') (init ())))"
proof -
  have i: "multiple_mode (init ()) = False" by (simp add: init_def)
  have a: "send_command_base (device ''ciscoasa#'' ''Security context mode: multiple'')
             ''show mode'' True True (init ()) = (Inr ''Security context mode: multiple'', ())"
    by (simp add: device_def fixed_collaborator_def)
  have b: "send_command_base (device ''ciscoasa#'' ''single'')
             ''show mode'' True True (init ()) = (Inr ''single'', ())"
    by (simp add: device_def fixed_collaborator_def)
  have m: "str_in ''multiple'' ''Security context mode: multiple''" by simp
  from check_multiple_mode_detects [OF i a] m
  have "multiple_mode (snd (check_multiple_mode (device ''ciscoasa#'' ''Security context mode: multiple'') (init ())))"
    by blast
  moreover from check_multiple_mode_detects [OF i b]
  have "\<not> multiple_mode (snd (check_multiple_mode (device ''ciscoasa#'' ''single'') (init ())))"
    by blast
  ultimately show ?thesis by blast
qed

text \<open>
  C6. \<open>connect\<close> is decided by what the base class answers, step by step and in this
  order: transport establishment on the given session; prompt discovery on the session
  that call left, followed by the parsing of the prompt; privileged-mode entry; paging
  suppression; and the \<open>show mode\<close> command, each on the session the step before left.
  If a call raises, or the discovered prompt does not unpack, \<open>connect\<close> fails with that
  very error and the session is the one reached so far: the record of calls ends with
  the failing call, no later call is made. If all five return, \<open>connect\<close> succeeds, the
  identity is the one parsed from the discovered prompt and \<open>multiple_mode\<close> is set from
  the answer to \<open>show mode\<close>. In every case the calls added are a non-empty initial part of
  the five steps, each made once, and every call but the last returned.
\<close>

theorem connect_sequence:
  "((case establish_connection env s of
      (Inl e, w1) \<Rightarrow> connect env s = (Inl e, reached s [(EstablishConnection, Raised e)] w1)
    | (Inr u1, w1) \<Rightarrow>
   (case find_prompt env (reached s [(EstablishConnection, Finished)] w1) of
      (Inl e, w2) \<Rightarrow>
        connect env s =
          (Inl e, reached s [(EstablishConnection, Finished), (FindPrompt, Raised e)] w2)
    | (Inr raw, w2) \<Rightarrow>
   (case cut_prompt raw of
      Inl e \<Rightarrow>
        connect env s =
          (Inl e, reached s [(EstablishConnection, Finished), (FindPrompt, Returned raw)] w2)
    | Inr (p, c) \<Rightarrow>
   (case enable env
           (identified p c
             (reached s [(EstablishConnection, Finished), (FindPrompt, Returned raw)] w2)) of
      (Inl e, w3) \<Rightarrow>
        connect env s =
          (Inl e, identified p c
                    (reached s [(EstablishConnection, Finished), (FindPrompt, Returned raw),
                                (Enable, Raised e)] w3))
    | (Inr u3, w3) \<Rightarrow>
   (case disable_paging env
           (identified p c
             (reached s [(EstablishConnection, Finished), (FindPrompt, Returned raw),
                         (Enable, Finished)] w3)) of
      (Inl e, w4) \<Rightarrow>
        connect env s =
          (Inl e, identified p c
                    (reached s [(EstablishConnection, Finished), (FindPrompt, Returned raw),
                                (Enable, Finished), (DisablePaging, Raised e)] w4))
    | (Inr u4, w4) \<Rightarrow>
   (case send_command_base env ''show mode'' True True
           (identified p c
             (reached s [(EstablishConnection, Finished), (FindPrompt, Returned raw),
                         (Enable, Finished), (DisablePaging, Finished)] w4)) of
      (Inl e, w5) \<Rightarrow>
        connect env s =
          (Inl e, identified p c
                    (reached s [(EstablishConnection, Finished), (FindPrompt, Returned raw),
                                (Enable, Finished), (DisablePaging, Finished),
                                (SendCommandBase ''show mode'' True True, Raised e)] w5))
    | (Inr out, w5) \<Rightarrow>
        connect env s =
          (Inr (), (identified p c
                     (reached s [(EstablishConnection, Finished), (FindPrompt, Returned raw),
                                 (Enable, Finished), (DisablePaging, Finished),
                                 (SendCommandBase ''show mode'' True True, Returned out)] w5))
                   \<lparr>multiple_mode := multiple_mode s \<or> str_in ''multiple'' out\<rparr>))))))))
   \<and> (\<exists>new. calls (snd (connect env s)) = calls s @ new \<and> new \<noteq> []
          \<and> map fst new = take (length new) connect_steps
          \<and> (\<forall>x\<in>set (butlast new). \<forall>e. snd x \<noteq> Raised e))"
proof (rule conjI)
  have run: "connect env s = (fst (connect env s), snd (connect env s))" by simp
  from connect_calls_prefix [OF run] obtain new where
    "calls (snd (connect env s)) = calls s @ new" "new \<noteq> []"
    "map fst new = take (length new) connect_steps"
    "\<forall>x\<in>set (butlast new). \<forall>e. snd x \<noteq> Raised e"
    by blast
  then show "\<exists>new. calls (snd (connect env s)) = calls s @ new \<and> new \<noteq> []
          \<and> map fst new = take (length new) connect_steps
          \<and> (\<forall>x\<in>set (butlast new). \<forall>e. snd x \<noteq> Raised e)"
    by blast
qed (rule connect_answers)

theorem connect_sequence_witness:
  "connect (device ''ciscoasa/admin#'' ''Security context mode: multiple'') (init ())
     = (Inr (),
        (identified ''ciscoasa'' ''admin''
          (reached (init ())
             [(EstablishConnection, Finished), (FindPrompt, Returned ''ciscoasa/admin#''),
              (Enable, Finished), (DisablePaging, Finished),
              (SendCommandBase ''show mode'' True True,
               Returned ''Security context mode: multiple'')] ()))
        \<lparr>multiple_mode := True\<rparr>)
   \<and> connect (fixed_collaborator (Inl (CollaboratorError ''refused'')) (Inr ''ciscoasa#'')
                (Inr ()) (Inr ()) (Inr ''single'')) (init ())
     = (Inl (CollaboratorError ''refused''),
        reached (init ()) [(EstablishConnection, Raised (CollaboratorError ''refused''))] ())
   \<and> connect (fixed_collaborator (Inr ()) (Inr ''ciscoasa#'')
                (Inl (CollaboratorError ''denied'')) (Inr ()) (Inr ''single'')) (init ())
     = (Inl (CollaboratorError ''denied''),
        identified ''ciscoasa'' ''system''
          (reached (init ())
             [(EstablishConnection, Finished), (FindPrompt, Returned ''ciscoasa#''),
              (Enable, Raised (CollaboratorError ''denied''))] ()))"
proof -
  have one: "connect (device ''ciscoasa/admin#'' ''Security context mode: multiple'') (init ())
     = (Inr (),
        (identified ''ciscoasa'' ''admin''
          (reached (init ())
             [(EstablishConnection, Finished), (FindPrompt, Returned ''ciscoasa/admin#''),
              (Enable, Finished), (DisablePaging, Finished),
              (SendCommandBase ''show mode'' True True,
               Returned ''Security context mode: multiple'')] ()))
        \<lparr>multiple_mode := True\<rparr>)"
    using connect_sequence
      [of "device ''ciscoasa/admin#'' ''Security context mode: multiple''" "init ()",
       THEN conjunct1]
    by (simp add: device_def fixed_collaborator_def cut_prompt_def del: re_escape.simps)
  have two: "connect (fixed_collaborator (Inl (CollaboratorError ''refused'')) (Inr ''ciscoasa#'')
                (Inr ()) (Inr ()) (Inr ''single'')) (init ())
     = (Inl (CollaboratorError ''refused''),
        reached (init ()) [(EstablishConnection, Raised (CollaboratorError ''refused''))] ())"
    using connect_sequence
      [of "fixed_collaborator (Inl (CollaboratorError ''refused'')) (Inr ''ciscoasa#'')
                (Inr ()) (Inr ()) (Inr ''single'')" "init ()", THEN conjunct1]
    by (simp add: fixed_collaborator_def)
  have three: "connect (fixed_collaborator (Inr ()) (Inr ''ciscoasa#'')
                (Inl (CollaboratorError ''denied'')) (Inr ()) (Inr ''single'')) (init ())
     = (Inl (CollaboratorError ''denied''),
        identified ''ciscoasa'' ''system''
          (reached (init ())
             [(EstablishConnection, Finished), (FindPrompt, Returned ''ciscoasa#''),
              (Enable, Raised (CollaboratorError ''denied''))] ()))"
    using connect_sequence
      [of "fixed_collaborator (Inr ()) (Inr ''ciscoasa#'')
                (Inl (CollaboratorError ''denied'')) (Inr ()) (Inr ''single'')" "init ()",
       THEN conjunct1]
    by (simp add: fixed_collaborator_def cut_prompt_def del: re_escape.simps)
  from one two three show ?thesis by (simp only: simp_thms)
qed

end
